theory Spec2Isabelle
  imports Main "HOL-Library.Word" "HOL-Library.Signed_Division"
begin

section \<open>The PE front ends: dll2def and dumpsyms\<close>

subsection \<open>Mapping an RVA to a file offset\<close>

text \<open>
  \<^verbatim>\<open>struct RVA_2_FileOffset\<close> of \<^verbatim>\<open>dll2def.cpp\<close> and of the dumpsyms source: three
  \<^verbatim>\<open>uint32_t\<close> fields. The singly linked list \<^verbatim>\<open>RVA_2_FileOffset_node\<close> is a HOL
  list of these records, the head of the list first.
\<close>

type_synonym uint32_t = "32 word"
type_synonym uint16_t = "16 word"
type_synonym uint8_t = "8 word"

record RVA_2_FileOffset =
  VirtualAddress :: uint32_t
  VirtualSize :: uint32_t
  FileOffset :: uint32_t

text \<open>
  \<^verbatim>\<open>do_RVA_2_FileOffset\<close> (the two sources hold the same text). All arithmetic is
  \<^verbatim>\<open>uint32_t\<close> arithmetic, so the sums and differences wrap around at \<open>2 ^ 32\<close>.
\<close>

fun do_RVA_2_FileOffset :: "RVA_2_FileOffset list \<Rightarrow> uint32_t \<Rightarrow> uint32_t" where
  "do_RVA_2_FileOffset [] RVA = 0"
| "do_RVA_2_FileOffset (node # next_node) RVA =
     (if RVA \<ge> VirtualAddress node \<and> RVA \<le> VirtualAddress node + VirtualSize node
      then RVA - VirtualAddress node + FileOffset node
      else do_RVA_2_FileOffset next_node RVA)"

text \<open>
  The range of a section that the test of the loop describes: closed at both ends, from
  \<open>VirtualAddress\<close> to \<open>VirtualAddress + VirtualSize\<close> (a 32-bit sum).
\<close>

definition in_range :: "RVA_2_FileOffset \<Rightarrow> uint32_t \<Rightarrow> bool" where
  "in_range node RVA =
     (VirtualAddress node \<le> RVA \<and> RVA \<le> VirtualAddress node + VirtualSize node)"

subsection \<open>dll2def's replacement of sprintf\<close>

text \<open>
  The destination of \<^verbatim>\<open>cprintf\<close> is a buffer of characters; \<open>dest\<close> points at its
  first element and \<open>outp\<close> is kept as the signed distance from \<open>dest\<close>. A store
  through a pointer outside the buffer has no defined behaviour: the model returns
  \<open>None\<close> there.
\<close>

definition poke :: "char list \<Rightarrow> int \<Rightarrow> char \<Rightarrow> char list option" where
  "poke buf i c = (if 0 \<le> i \<and> i < int (length buf) then Some (buf[nat i := c]) else None)"

text \<open>
  The inner loop \<^verbatim>\<open>while (len-- > 0) { *(outp - ++x) = '0' + n % 10; n /= 10; }\<close>.
  The test reads \<open>len\<close> and then decrements it, also when the test fails, so the loop
  leaves \<open>len\<close> one below the value that failed the test. C's \<^verbatim>\<open>/\<close> and \<^verbatim>\<open>%\<close>
  on \<^verbatim>\<open>int\<close> truncate towards zero (\<open>sdiv\<close>, \<open>smod\<close>); the sum \<^verbatim>\<open>'0' + n % 10\<close> is
  narrowed to a \<^verbatim>\<open>char\<close> by the store.
\<close>

function cprintf_digits ::
  "char list \<Rightarrow> int \<Rightarrow> int \<Rightarrow> int \<Rightarrow> int \<Rightarrow> (char list \<times> int \<times> int) option" where
  "cprintf_digits dest outp x len n =
     (if len > 0 then
        (case poke dest (outp - (x + 1)) (char_of (of_char CHR ''0'' + n smod 10)) of
           None \<Rightarrow> None
         | Some dest' \<Rightarrow> cprintf_digits dest' outp (x + 1) (len - 1) (n sdiv 10))
      else Some (dest, len - 1, n))"
  by pat_completeness auto
termination
  by (relation "measure (\<lambda>(dest, outp, x, len, n). nat len)") auto

declare cprintf_digits.simps [simp del]

text \<open>
  The outer loop \<^verbatim>\<open>while ((c = *mask++))\<close>. The mask is given as the characters
  at \<open>mask\<close>; the loop ends at a NUL character, or at the end of the list, which stands
  for the terminating NUL of the string.
\<close>

fun cprintf_loop ::
  "char list \<Rightarrow> char list \<Rightarrow> int \<Rightarrow> int \<Rightarrow> int \<Rightarrow> (char list \<times> int) option" where
  "cprintf_loop [] dest outp len n = Some (dest, outp)"
| "cprintf_loop (c # mask_rest) dest outp len n =
     (if c = CHR 0x00 then Some (dest, outp)
      else if c = CHR ''%'' then
        (case cprintf_digits dest (outp + len) 0 len n of
           None \<Rightarrow> None
         | Some (dest', len', n') \<Rightarrow> cprintf_loop mask_rest dest' (outp + len) len' n')
      else
        (case poke dest outp c of
           None \<Rightarrow> None
         | Some dest' \<Rightarrow> cprintf_loop mask_rest dest' (outp + 1) len n))"

text \<open>
  \<^verbatim>\<open>int cprintf(char *dest, const char *mask, int n)\<close>: the buffer after the call and
  the returned \<^verbatim>\<open>outp - dest\<close>.
\<close>

definition cprintf :: "char list \<Rightarrow> char list \<Rightarrow> int \<Rightarrow> (char list \<times> int) option" where
  "cprintf dest mask_str n =
     (let len = (if n \<le> 9 then 1
                 else if n \<le> 99 then 2
                 else if n \<le> 999 then 3
                 else if n \<le> 9999 then 4
                 else if n \<le> 99999 then 5
                 else (6::int))
      in cprintf_loop mask_str dest 0 len n)"

text \<open>
  The decimal representation of a natural number: the single digit \<open>0\<close> for zero, no
  leading zero otherwise.
\<close>

definition digit :: "nat \<Rightarrow> char" where
  "digit d = char_of (of_char CHR ''0'' + d)"

fun decimal :: "nat \<Rightarrow> string" where
  "decimal n = (if n < 10 then [digit n] else decimal (n div 10) @ [digit (n mod 10)])"

declare decimal.simps [simp del]

text \<open>The last \<open>k\<close> decimal digits of \<open>n\<close>, the most significant first.\<close>

fun last_digits :: "nat \<Rightarrow> nat \<Rightarrow> string" where
  "last_digits 0 n = []"
| "last_digits (Suc k) n = last_digits k (n div 10) @ [digit (n mod 10)]"

subsection \<open>Reading the PE file\<close>

text \<open>
  \<^verbatim>\<open>enum ERR_CODES\<close>, in the order of the enumerators; \<open>parse_pe\<close> returns one of them
  (\<^verbatim>\<open>return 0\<close> is \<open>ERR_OK\<close>).
\<close>

datatype ERR_CODES =
  ERR_OK | ERR_FILE_NOT_FOUND | ERR_OUTPUT | ERR_BAD_FORMAT | ERR_NO_EXPORT | ERR_NO_FREE_MEM
  | ERR_BAD_FILENAME

text \<open>
  The input stream \<^verbatim>\<open>std::ifstream hFile\<close>, once open: the bytes of the file, the read
  position, the fail bit and the count of the last read. \<^verbatim>\<open>read\<close> delivers nothing
  once the fail bit is set, and sets it when fewer bytes than asked for are left;
  \<^verbatim>\<open>seekg\<close> does nothing once the fail bit is set and otherwise moves to any offset,
  also one behind the end of the file. Nothing in \<open>parse_pe\<close> clears the fail bit.
\<close>

record ifstream =
  bytes :: "char list"
  pos :: nat
  failbit :: bool
  gcount :: nat















text \<open>
  What the loop over the name pointer table works on: the stream, the two arrays and
  two scalars it reads into, the two running file offsets, and the text written to
  \<open>hOut\<close> so far.
\<close>

record names_state =
  hFile :: ifstream
  pub_name :: "char list"
  i_mem :: "char list"
  ordinal_mem :: "char list"
  psymbols_array :: uint32_t
  ordinals_array :: uint32_t
  hOut :: string




text \<open>
  The end of the loop body (compact mode, \<open>current_mod\<close> is always \<open>MOD_NO\<close>): the implib
  line is written, the name closed by a line feed stored behind it.
\<close>

definition write_implib :: "string \<Rightarrow> nat \<Rightarrow> names_state \<Rightarrow> names_state" where
  "write_implib filename pub_name_len s =
     (let name = (pub_name s)[pub_name_len := CHR 0x0A]
      in s\<lparr>pub_name := name,
           hOut := hOut s @ ''implib '' @ filename @ '', '' @ take (Suc pub_name_len) name\<rparr>)"







section \<open>The import-library builder\<close>

subsection \<open>Objects behind the interfaces\<close>

text \<open>
  \<^verbatim>\<open>LibGenHelperImpl.cpp\<close> drives three collaborators through their interfaces: the
  COFF factory, the import-section builder and the archive emitter. Objects live on a
  heap and are named by their addresses, so that what two builders share, if anything,
  shows in the model.
\<close>

datatype arch = ArchX86 | ArchX64

text \<open>
  Modelled from the spec: the Import-Section Synthesizer (\<^verbatim>\<open>IImpSectionBuilder\<close>, module
  ImpGen) is not among the sources. The spec has it produce one COFF object per logical
  member from the arguments of the call, and keep nothing between calls. A call is
  therefore represented by its name and its arguments, and filling an object appends the
  call to the object. \<^verbatim>\<open>szFuncName\<close> may be a null pointer (the interface header says
  so), all other strings are C strings.
\<close>

datatype imp_build =
    BuildImportDescriptor string
  | BuildNullDescriptor
  | BuildImportByNameThunk string string "string option" string
  | BuildImportByOrdinalThunk string string "string option" int
  | BuildImportThunk string string "string option" string int
  | BuildNullThunk string

record ICoffBuilder =
  coff_arch :: arch
  coff_builds :: "imp_build list"

text \<open>
  Modelled from the spec: the Archive Emitter (\<^verbatim>\<open>ILibraryBuilder\<close>, module LibGen) is
  not among the sources either. The spec has it accept \<open>(memberName, coffObject)\<close> pairs
  in insertion order and then a fill-offsets request. An emitter object is represented
  by the calls it has received, in order.
\<close>

datatype lib_call = Call_AddObject string nat | Call_FillOffsets

record world =
  coffs :: "nat \<Rightarrow> ICoffBuilder"
  libs :: "nat \<Rightarrow> lib_call list"
  brk :: nat

text \<open>
  \<open>brk\<close> is the allocator: the next fresh address. Both factories allocate from it, so no
  two live objects have the same address.
\<close>

definition CreateCoffBuilder :: "arch \<Rightarrow> world \<Rightarrow> nat \<times> world" where
  "CreateCoffBuilder a w =
     (brk w, w\<lparr>coffs := (coffs w)(brk w := \<lparr>coff_arch = a, coff_builds = []\<rparr>),
               brk := Suc (brk w)\<rparr>)"

definition CreateLibraryBuilder :: "world \<Rightarrow> nat \<times> world" where
  "CreateLibraryBuilder w = (brk w, w\<lparr>libs := (libs w)(brk w := []), brk := Suc (brk w)\<rparr>)"

definition sec_build :: "imp_build \<Rightarrow> nat \<Rightarrow> world \<Rightarrow> world" where
  "sec_build call obj w =
     w\<lparr>coffs := (coffs w)(obj := (coffs w obj)\<lparr>coff_builds := coff_builds (coffs w obj) @ [call]\<rparr>)\<rparr>"

definition AddObject :: "nat \<Rightarrow> string \<Rightarrow> nat \<Rightarrow> world \<Rightarrow> world" where
  "AddObject lib szName obj w = w\<lparr>libs := (libs w)(lib := libs w lib @ [Call_AddObject szName obj])\<rparr>"

definition FillOffsets :: "nat \<Rightarrow> world \<Rightarrow> world" where
  "FillOffsets lib w = w\<lparr>libs := (libs w)(lib := libs w lib @ [Call_FillOffsets])\<rparr>"

subsection \<open>CImportLibraryBuilder\<close>

text \<open>
  The class template \<^verbatim>\<open>CImportLibraryBuilder<Arch>\<close>: its five fields. \<open>m_secBuilder\<close>
  is what \<^verbatim>\<open>ArchTraits<Arch>::GetImpSectionBuilder()\<close> returned, named by its
  architecture; \<open>m_libBuilder\<close> and the elements of \<open>m_todispose\<close> are addresses.
\<close>

record CImportLibraryBuilder =
  m_secBuilder :: arch
  m_libBuilder :: nat
  m_dllName :: string
  m_memName :: string
  m_todispose :: "nat list"

definition CreateObject ::
  "CImportLibraryBuilder \<Rightarrow> world \<Rightarrow> nat \<times> CImportLibraryBuilder \<times> world" where
  "CreateObject this w =
     (let (r, w1) = CreateCoffBuilder (m_secBuilder this) w
      in (r, this\<lparr>m_todispose := m_todispose this @ [r]\<rparr>, w1))"

text \<open>The constructor, for the architecture of the template argument.\<close>

definition new_CImportLibraryBuilder ::
  "arch \<Rightarrow> string \<Rightarrow> string \<Rightarrow> world \<Rightarrow> CImportLibraryBuilder \<times> world" where
  "new_CImportLibraryBuilder a szDllName szMemName w =
     (let (lib, w1) = CreateLibraryBuilder w;
          this = \<lparr>m_secBuilder = a, m_libBuilder = lib, m_dllName = szDllName,
                  m_memName = szMemName, m_todispose = []\<rparr>;
          (impdesc, this, w2) = CreateObject this w1;
          w3 = sec_build (BuildImportDescriptor szDllName) impdesc w2;
          w4 = AddObject (m_libBuilder this) szMemName impdesc w3;
          (nuldesc, this, w5) = CreateObject this w4;
          w6 = sec_build BuildNullDescriptor nuldesc w5;
          w7 = AddObject (m_libBuilder this) szMemName nuldesc w6
      in (this, w7))"

definition CreateX86ImpLibBuilder ::
  "string \<Rightarrow> string \<Rightarrow> world \<Rightarrow> CImportLibraryBuilder \<times> world" where
  "CreateX86ImpLibBuilder szDllName szMemberName w =
     new_CImportLibraryBuilder ArchX86 szDllName szMemberName w"

definition CreateX64ImpLibBuilder ::
  "string \<Rightarrow> string \<Rightarrow> world \<Rightarrow> CImportLibraryBuilder \<times> world" where
  "CreateX64ImpLibBuilder szDllName szMemberName w =
     new_CImportLibraryBuilder ArchX64 szDllName szMemberName w"

definition AddImportFunctionByName ::
  "string \<Rightarrow> string option \<Rightarrow> string \<Rightarrow> CImportLibraryBuilder \<times> world
     \<Rightarrow> CImportLibraryBuilder \<times> world" where
  "AddImportFunctionByName szImpName szFuncName szDllExpName s =
     (let (this, w) = s;
          (impMember, this, w1) = CreateObject this w;
          w2 = sec_build (BuildImportByNameThunk (m_dllName this) szImpName szFuncName
                            szDllExpName) impMember w1;
          w3 = AddObject (m_libBuilder this) (m_memName this) impMember w2
      in (this, w3))"

definition AddImportFunctionByOrdinal ::
  "string \<Rightarrow> string option \<Rightarrow> int \<Rightarrow> CImportLibraryBuilder \<times> world
     \<Rightarrow> CImportLibraryBuilder \<times> world" where
  "AddImportFunctionByOrdinal szImpName szFuncName nOrdinal s =
     (let (this, w) = s;
          (impMember, this, w1) = CreateObject this w;
          w2 = sec_build (BuildImportByOrdinalThunk (m_dllName this) szImpName szFuncName
                            nOrdinal) impMember w1;
          w3 = AddObject (m_libBuilder this) (m_memName this) impMember w2
      in (this, w3))"

definition AddImportFunctionByNameWithHint ::
  "string \<Rightarrow> string option \<Rightarrow> string \<Rightarrow> int \<Rightarrow> CImportLibraryBuilder \<times> world
     \<Rightarrow> CImportLibraryBuilder \<times> world" where
  "AddImportFunctionByNameWithHint szImpName szFuncName szImportName nOrdinal s =
     (let (this, w) = s;
          (impMember, this, w1) = CreateObject this w;
          w2 = sec_build (BuildImportThunk (m_dllName this) szImpName szFuncName
                            szImportName nOrdinal) impMember w1;
          w3 = AddObject (m_libBuilder this) (m_memName this) impMember w2
      in (this, w3))"

definition Build :: "CImportLibraryBuilder \<times> world \<Rightarrow> CImportLibraryBuilder \<times> world" where
  "Build s =
     (let (this, w) = s;
          (nullThunk, this, w1) = CreateObject this w;
          w2 = sec_build (BuildNullThunk (m_dllName this)) nullThunk w1;
          w3 = AddObject (m_libBuilder this) (m_memName this) nullThunk w2;
          w4 = FillOffsets (m_libBuilder this) w3
      in (this, w4))"

text \<open>
  What an emitter holds when it is asked for its bytes: its calls in order, each added
  object read through the heap. \<^verbatim>\<open>GetDataLength\<close> and \<^verbatim>\<open>GetRawData\<close> of the builder
  forward to the emitter, whose answers are functions \<open>len\<close> and \<open>raw\<close> of this content.
\<close>

datatype entry = Member string ICoffBuilder | Offsets_filled

fun entry_of :: "world \<Rightarrow> lib_call \<Rightarrow> entry" where
  "entry_of w (Call_AddObject szName obj) = Member szName (coffs w obj)"
| "entry_of w Call_FillOffsets = Offsets_filled"

definition archive :: "CImportLibraryBuilder \<times> world \<Rightarrow> entry list" where
  "archive s = (let (this, w) = s in map (entry_of w) (libs w (m_libBuilder this)))"

definition GetRawData ::
  "(entry list \<Rightarrow> uint8_t list) \<Rightarrow> CImportLibraryBuilder \<times> world \<Rightarrow> uint8_t list" where
  "GetRawData raw s = raw (archive s)"

definition GetDataLength ::
  "(entry list \<Rightarrow> nat) \<Rightarrow> CImportLibraryBuilder \<times> world \<Rightarrow> nat" where
  "GetDataLength len s = len (archive s)"

subsection \<open>Runs of a builder\<close>

text \<open>The three add-import methods with their arguments, and the calls of a client.\<close>

datatype import =
    ByName string "string option" string
  | ByOrdinal string "string option" int
  | ByNameWithHint string "string option" string int

datatype call = Add import | Do_Build

fun add_import :: "import \<Rightarrow> CImportLibraryBuilder \<times> world \<Rightarrow> CImportLibraryBuilder \<times> world" where
  "add_import (ByName szImpName szFuncName szImportName) s =
     AddImportFunctionByName szImpName szFuncName szImportName s"
| "add_import (ByOrdinal szImpName szFuncName nOrdinal) s =
     AddImportFunctionByOrdinal szImpName szFuncName nOrdinal s"
| "add_import (ByNameWithHint szImpName szFuncName szImportName nOrdinal) s =
     AddImportFunctionByNameWithHint szImpName szFuncName szImportName nOrdinal s"

fun do_call :: "call \<Rightarrow> CImportLibraryBuilder \<times> world \<Rightarrow> CImportLibraryBuilder \<times> world" where
  "do_call (Add i) s = add_import i s"
| "do_call Do_Build s = Build s"

text \<open>
  One run of a builder: construction, the add-import calls in order, then \<open>Build\<close>.
\<close>

definition build_library ::
  "arch \<Rightarrow> string \<Rightarrow> string \<Rightarrow> import list \<Rightarrow> world \<Rightarrow> CImportLibraryBuilder \<times> world" where
  "build_library a szDllName szMemName imps w =
     Build (fold add_import imps (new_CImportLibraryBuilder a szDllName szMemName w))"

text \<open>
  The thunk object an add-import call asks the section builder for, and the archive
  content of an import library: import descriptor, null descriptor, one thunk member per
  call in call order, null thunk, all under one member name.
\<close>

fun thunk_of :: "string \<Rightarrow> import \<Rightarrow> imp_build" where
  "thunk_of dll (ByName szImpName szFuncName szImportName) =
     BuildImportByNameThunk dll szImpName szFuncName szImportName"
| "thunk_of dll (ByOrdinal szImpName szFuncName nOrdinal) =
     BuildImportByOrdinalThunk dll szImpName szFuncName nOrdinal"
| "thunk_of dll (ByNameWithHint szImpName szFuncName szImportName nOrdinal) =
     BuildImportThunk dll szImpName szFuncName szImportName nOrdinal"

definition member_of :: "arch \<Rightarrow> string \<Rightarrow> imp_build \<Rightarrow> entry" where
  "member_of a mem b = Member mem \<lparr>coff_arch = a, coff_builds = [b]\<rparr>"

definition fixed_head :: "arch \<Rightarrow> string \<Rightarrow> string \<Rightarrow> entry list" where
  "fixed_head a dll mem =
     [member_of a mem (BuildImportDescriptor dll), member_of a mem BuildNullDescriptor]"

fun after_call :: "arch \<Rightarrow> string \<Rightarrow> string \<Rightarrow> call \<Rightarrow> entry list \<Rightarrow> entry list" where
  "after_call a dll mem (Add i) es = es @ [member_of a mem (thunk_of dll i)]"
| "after_call a dll mem Do_Build es = es @ [member_of a mem (BuildNullThunk dll), Offsets_filled]"

definition user_members :: "arch \<Rightarrow> string \<Rightarrow> string \<Rightarrow> import list \<Rightarrow> entry list" where
  "user_members a dll mem imps =
     fixed_head a dll mem @ map (\<lambda>i. member_of a mem (thunk_of dll i)) imps
       @ [member_of a mem (BuildNullThunk dll)]"

subsection \<open>Several builders in one program\<close>

text \<open>
  A client program holds builders in variables \<open>'i\<close> and calls them in any order. A call
  through a variable that holds no builder has no defined behaviour: the run stops with
  \<open>None\<close>.
\<close>

datatype 'i event = Create 'i arch string string | Call 'i call

fun builder_of :: "'i event \<Rightarrow> 'i" where
  "builder_of (Create i a szDllName szMemberName) = i"
| "builder_of (Call i k) = i"

record 'i client =
  heap :: world
  var :: "'i \<Rightarrow> CImportLibraryBuilder option"

definition start :: "world \<Rightarrow> 'i client" where
  "start w = \<lparr>heap = w, var = (\<lambda>i. None)\<rparr>"

fun step :: "'i event \<Rightarrow> 'i client \<Rightarrow> 'i client option" where
  "step (Create i a szDllName szMemberName) c =
     (let (this, w) =
        (case a of
           ArchX86 \<Rightarrow> CreateX86ImpLibBuilder szDllName szMemberName (heap c)
         | ArchX64 \<Rightarrow> CreateX64ImpLibBuilder szDllName szMemberName (heap c))
      in Some \<lparr>heap = w, var = (var c)(i := Some this)\<rparr>)"
| "step (Call i k) c =
     (case var c i of
        None \<Rightarrow> None
      | Some this \<Rightarrow>
          (let (this', w) = do_call k (this, heap c)
           in Some \<lparr>heap = w, var = (var c)(i := Some this')\<rparr>))"

fun run :: "'i event list \<Rightarrow> 'i client \<Rightarrow> 'i client option" where
  "run [] c = Some c"
| "run (e # es) c = (case step e c of None \<Rightarrow> None | Some c' \<Rightarrow> run es c')"

definition archive_of :: "'i client \<Rightarrow> 'i \<Rightarrow> entry list option" where
  "archive_of c i = map_option (\<lambda>this. archive (this, heap c)) (var c i)"

subsection \<open>Ownership\<close>

text \<open>
  A builder owns its emitter and the objects it has added to it: all of them were
  allocated before the allocator's current position. The two primitive steps every
  method is made of: adding one freshly built member, and filling the offsets.
\<close>

definition owns :: "world \<Rightarrow> CImportLibraryBuilder \<Rightarrow> bool" where
  "owns w this \<longleftrightarrow>
     m_libBuilder this < brk w \<and>
     (\<forall>szName obj. Call_AddObject szName obj \<in> set (libs w (m_libBuilder this)) \<longrightarrow> obj < brk w)"

definition add_member ::
  "imp_build \<Rightarrow> CImportLibraryBuilder \<times> world \<Rightarrow> CImportLibraryBuilder \<times> world" where
  "add_member b s =
     (let (this, w) = s in
      (this\<lparr>m_todispose := m_todispose this @ [brk w]\<rparr>,
       w\<lparr>coffs := (coffs w)(brk w := \<lparr>coff_arch = m_secBuilder this, coff_builds = [b]\<rparr>),
         libs := (libs w)(m_libBuilder this :=
                    libs w (m_libBuilder this) @ [Call_AddObject (m_memName this) (brk w)]),
         brk := Suc (brk w)\<rparr>))"

definition fill :: "CImportLibraryBuilder \<times> world \<Rightarrow> CImportLibraryBuilder \<times> world" where
  "fill s = (let (this, w) = s in (this, FillOffsets (m_libBuilder this) w))"

definition live :: "'i client \<Rightarrow> bool" where
  "live c \<longleftrightarrow>
     (\<forall>j this. var c j = Some this \<longrightarrow>
        owns (heap c) this \<and>
        (\<forall>k that. k \<noteq> j \<longrightarrow> var c k = Some that \<longrightarrow> m_libBuilder that \<noteq> m_libBuilder this))"

definition same_builder :: "'i \<Rightarrow> 'i client \<Rightarrow> 'i client \<Rightarrow> bool" where
  "same_builder i c d \<longleftrightarrow>
     rel_option (\<lambda>this that.
        archive (this, heap c) = archive (that, heap d) \<and>
        m_secBuilder this = m_secBuilder that \<and>
        m_dllName this = m_dllName that \<and>
        m_memName this = m_memName that \<and>
        owns (heap d) that) (var c i) (var d i)"

text \<open>A program with two builders, for two DLLs that export the same name.\<close>

definition two_dlls :: "bool event list" where
  "two_dlls =
     [Create False ArchX86 ''a.dll'' ''a.dll'',
      Call False (Add (ByName ''__imp_f'' (Some ''f'') ''f'')),
      Create True ArchX64 ''b.dll'' ''b.dll'',
      Call True (Add (ByName ''__imp_f'' (Some ''f'') ''f'')),
      Call False (Add (ByOrdinal ''__imp_g'' None 7)),
      Call True Do_Build,
      Call False Do_Build]"

section \<open>MakeImpLib: the program\<close>

text \<open>
  \<^verbatim>\<open>main\<close> of \<^verbatim>\<open>MakeImpLib/main.cpp\<close> reads the JSON document into local variables
  of fixed types: two strings and an \<^verbatim>\<open>int\<close> at the top, and per symbol four strings
  and an \<^verbatim>\<open>int\<close>. The input of the model is the document as these variables hold it;
  the JSON library's own failures (a missing key, a value of another type) are outside
  the model.
\<close>

record symbol =
  cconv :: string
  name :: string
  ord :: int
  thunk :: string
  pubname :: string

record json_input =
  dllname :: string
  arch :: int
  symbols :: "symbol list"

text \<open>
  What a run ends with: the usage text, a \<^verbatim>\<open>MyMsgException\<close> (the text written to
  \<^verbatim>\<open>std::cerr\<close>, which is \<open>e.fmt\<close> followed by \<open>e.msg\<close>), or the output file; the
  outcome records the content of the emitter the file is written from. The file receives
  the \<^verbatim>\<open>GetDataLength\<close> bytes of a zeroed buffer that \<^verbatim>\<open>GetRawData\<close> has filled from its
  start; \<open>None\<close> stands for no file, and for a \<^verbatim>\<open>GetRawData\<close> that writes past the
  buffer.
\<close>

datatype outcome = Usage | Failure string | Written "entry list"

fun output_file ::
  "(entry list \<Rightarrow> nat) \<Rightarrow> (entry list \<Rightarrow> uint8_t list) \<Rightarrow> outcome \<Rightarrow> uint8_t list option" where
  "output_file len raw (Written es) =
     (if length (raw es) \<le> len es
      then Some (raw es @ replicate (len es - length (raw es)) 0)
      else None)"
| "output_file len raw Usage = None"
| "output_file len raw (Failure msg) = None"

text \<open>The loop over \<open>symbols\<close>. \<^verbatim>\<open>thunk.c_str()\<close> is never a null pointer.\<close>

fun add_symbols ::
  "symbol list \<Rightarrow> CImportLibraryBuilder \<times> world \<Rightarrow> CImportLibraryBuilder \<times> world" where
  "add_symbols [] impBuilder = impBuilder"
| "add_symbols (symbol # rest) impBuilder =
     add_symbols rest
       (if name symbol \<noteq> [] then
          AddImportFunctionByName (pubname symbol) (Some (thunk symbol)) (name symbol) impBuilder
        else
          AddImportFunctionByOrdinal (pubname symbol) (Some (thunk symbol)) (ord symbol) impBuilder)"

text \<open>
  \<open>inputFile\<close> is the document when the input file opens, \<open>can_create\<close> and \<open>can_write\<close>
  say whether the output file opens and takes the bytes.
\<close>

definition main :: "nat \<Rightarrow> json_input option \<Rightarrow> bool \<Rightarrow> bool \<Rightarrow> world \<Rightarrow> outcome" where
  "main argc inputFile can_create can_write w =
     (if argc = 3 then
        (case inputFile of
           None \<Rightarrow> Failure (''%s'' @ ''Fail to open input file!'')
         | Some j \<Rightarrow>
             (let dllName = dllname j;
                  impBuilder =
                    (if arch j = 64 then CreateX64ImpLibBuilder dllName dllName w
                     else CreateX86ImpLibBuilder dllName dllName w);
                  impBuilder = add_symbols (symbols j) impBuilder;
                  impBuilder = Build impBuilder
              in if \<not> can_create then Failure (''%s'' @ ''Fail to create library File!'')
                 else if \<not> can_write then Failure (''%s'' @ ''Failed to write to output file!'')
                 else Written (archive impBuilder)))
      else Usage)"

text \<open>The add-import call the loop makes for one symbol, and the architecture chosen.\<close>

definition import_of :: "symbol \<Rightarrow> import" where
  "import_of symbol =
     (if name symbol \<noteq> [] then ByName (pubname symbol) (Some (thunk symbol)) (name symbol)
      else ByOrdinal (pubname symbol) (Some (thunk symbol)) (ord symbol))"

definition arch_of :: "int \<Rightarrow> arch" where
  "arch_of n = (if n = 64 then ArchX64 else ArchX86)"

text \<open>Two documents that differ at most in the \<open>cconv\<close> fields of their symbols.\<close>

definition same_but_cconv :: "json_input \<Rightarrow> json_input \<Rightarrow> bool" where
  "same_but_cconv j j' \<longleftrightarrow>
     dllname j = dllname j' \<and> arch j = arch j' \<and>
     list_all2 (\<lambda>s s'. name s = name s' \<and> ord s = ord s' \<and> thunk s = thunk s' \<and>
                        pubname s = pubname s') (symbols j) (symbols j')"

text \<open>An empty heap, for concrete runs.\<close>

definition empty_world :: world where
  "empty_world = \<lparr>coffs = (\<lambda>a. \<lparr>coff_arch = ArchX86, coff_builds = []\<rparr>), libs = (\<lambda>a. []), brk = 0\<rparr>"

section \<open>Member names in the archive\<close>




section \<open>Theorems\<close>

subsection \<open>do_RVA_2_FileOffset\<close>

lemma in_range_unat:
  "in_range node RVA \<longleftrightarrow>
     unat (VirtualAddress node) \<le> unat RVA \<and>
     unat RVA \<le> (unat (VirtualAddress node) + unat (VirtualSize node)) mod 2 ^ 32"
  by (simp add: in_range_def word_le_nat_alt unat_word_ariths)

text \<open>
  The upper end: an RVA equal to \<open>VirtualAddress + VirtualSize\<close>, one past the last byte
  of the section, is inside the range unless the sum wraps around, and is then mapped
  to \<open>VirtualSize + FileOffset\<close>.
\<close>

lemma in_range_upper_end:
  "in_range node (VirtualAddress node + VirtualSize node) \<longleftrightarrow>
     unat (VirtualAddress node) + unat (VirtualSize node) < 2 ^ 32"
proof -
  have "unat (VirtualAddress node) + unat (VirtualSize node) < 2 ^ 32 \<longleftrightarrow>
        VirtualAddress node \<le> VirtualAddress node + VirtualSize node"
    using no_olen_add_nat [of "VirtualAddress node" "VirtualSize node"] by simp
  then show ?thesis by (simp add: in_range_def)
qed

theorem do_RVA_2_FileOffset_upper_end:
  assumes "unat (VirtualAddress node) + unat (VirtualSize node) < 2 ^ 32"
  shows "do_RVA_2_FileOffset (node # next_node) (VirtualAddress node + VirtualSize node) =
           VirtualSize node + FileOffset node"
  using assms in_range_upper_end [of node] by (simp add: in_range_def)

theorem do_RVA_2_FileOffset_upper_end_witness:
  "do_RVA_2_FileOffset [\<lparr>VirtualAddress = 0x1000, VirtualSize = 0x200, FileOffset = 0x400\<rparr>] 0x1200
     = 0x600"
  using do_RVA_2_FileOffset_upper_end
    [of "\<lparr>VirtualAddress = 0x1000, VirtualSize = 0x200, FileOffset = 0x400\<rparr>" "[]"]
  by simp

text \<open>
  C10. \<open>do_RVA_2_FileOffset\<close> returns \<open>RVA - VirtualAddress + FileOffset\<close> of the first
  node in list order whose range contains the RVA, the range being closed at both ends
  (\<open>in_range\<close>: an RVA equal to \<open>VirtualAddress + VirtualSize\<close> is still inside), and
  \<open>0\<close> when no node's range contains it. Sums and differences are those of
  \<^verbatim>\<open>uint32_t\<close>.
\<close>

theorem do_RVA_2_FileOffset_first_match:
  "do_RVA_2_FileOffset sections RVA =
     (case find (\<lambda>node. in_range node RVA) sections of
        None \<Rightarrow> 0
      | Some node \<Rightarrow> RVA - VirtualAddress node + FileOffset node)"
  by (induction sections) (simp_all add: in_range_def)

subsection \<open>cprintf\<close>

lemma nonneg_smod: "0 \<le> n \<Longrightarrow> n smod 10 = n mod (10::int)"
  by (simp add: signed_modulo_int_def sgn_if)

lemma nonneg_sdiv: "0 \<le> n \<Longrightarrow> n sdiv 10 = n div (10::int)"
  by (simp add: signed_divide_int_def sgn_if)

lemma digit_code:
  assumes "0 \<le> n"
  shows "char_of (of_char CHR ''0'' + n smod 10) = digit (nat n mod 10)"
proof -
  have "of_char CHR ''0'' + n mod 10 = int (of_char CHR ''0'' + nat n mod 10)"
    using assms by (simp add: zmod_int)
  then show ?thesis
    using assms by (simp only: nonneg_smod digit_def char_of_nat)
qed

lemma poke_in: "i < length buf \<Longrightarrow> poke buf (int i) c = Some (buf[i := c])"
  by (simp add: poke_def)

lemma update_split:
  assumes "p + k < length dest"
  shows "take p (dest[p + k := c]) @ ds @ drop (p + k) (dest[p + k := c]) =
         take p dest @ (ds @ [c]) @ drop (p + Suc k) dest"
proof -
  have "drop (p + k) (dest[p + k := c]) = c # drop (p + Suc k) dest"
    using assms by (simp add: upd_conv_take_nth_drop)
  moreover have "take p (dest[p + k := c]) = take p dest"
    by simp
  ultimately show ?thesis by simp
qed

lemma cprintf_digits_writes:
  "0 \<le> n \<Longrightarrow> outp - x = int (p + k) \<Longrightarrow> p + k \<le> length dest \<Longrightarrow>
   cprintf_digits dest outp x (int k) n =
     Some (take p dest @ last_digits k (nat n) @ drop (p + k) dest, -1, n div 10 ^ k)"
proof (induction k arbitrary: dest x n)
  case 0
  then show ?case by (subst cprintf_digits.simps) simp
next
  case (Suc k)
  define c where "c = char_of (of_char CHR ''0'' + n smod 10)"
  have idx: "outp - (x + 1) = int (p + k)" using Suc.prems by simp
  have lt: "p + k < length dest" using Suc.prems by simp
  have pk: "poke dest (outp - (x + 1)) c = Some (dest[p + k := c])"
    unfolding idx using lt by (rule poke_in)
  have n10: "0 \<le> n div 10" using Suc.prems by simp
  have rec: "cprintf_digits (dest[p + k := c]) outp (x + 1) (int k) (n div 10) =
     Some (take p (dest[p + k := c]) @ last_digits k (nat (n div 10)) @ drop (p + k) (dest[p + k := c]),
           -1, n div 10 div 10 ^ k)"
    using Suc.IH [OF n10, of "x + 1" "dest[p + k := c]"] idx lt by simp
  have step: "cprintf_digits dest outp x (int (Suc k)) n =
      cprintf_digits (dest[p + k := c]) outp (x + 1) (int k) (n div 10)"
    using pk Suc.prems(1) unfolding c_def
    by (subst cprintf_digits.simps) (simp add: nonneg_sdiv)
  have dg: "c = digit (nat n mod 10)" unfolding c_def using Suc.prems(1) by (rule digit_code)
  have nd: "nat (n div 10) = nat n div 10" using Suc.prems(1) by (simp add: nat_div_distrib)
  have dd: "n div 10 div 10 ^ k = n div 10 ^ Suc k"
    by (simp add: zdiv_zmult2_eq)
  have "take p (dest[p + k := c]) @ last_digits k (nat (n div 10)) @ drop (p + k) (dest[p + k := c]) =
        take p dest @ last_digits (Suc k) (nat n) @ drop (p + Suc k) dest"
    unfolding update_split [OF lt] nd dg by simp
  with step rec dd show ?case by (simp only:)
qed

lemma last_digits_decimal:
  "0 < k \<Longrightarrow> n < 10 ^ k \<Longrightarrow> (k = 1 \<or> 10 ^ (k - 1) \<le> n) \<Longrightarrow> last_digits k n = decimal n"
proof (induction k arbitrary: n)
  case 0
  then show ?case by simp
next
  case (Suc k)
  show ?case
  proof (cases "k = 0")
    case True
    with Suc.prems show ?thesis by (simp add: decimal.simps [of n])
  next
    case False
    then obtain j where j: "k = Suc j" by (cases k) auto
    have ge: "10 ^ k \<le> n" using Suc.prems False by simp
    have "(10::nat) ^ 1 \<le> 10 ^ k" using j by (intro power_increasing) simp_all
    with ge have n10: "\<not> n < 10" by simp
    have lt: "n div 10 < 10 ^ k" using Suc.prems(2) by (simp add: less_mult_imp_div_less mult.commute)
    have ge': "k = 1 \<or> 10 ^ (k - 1) \<le> n div 10"
      using ge j by (simp add: less_eq_div_iff_mult_less_eq mult.commute)
    have "last_digits k (n div 10) = decimal (n div 10)"
      using Suc.IH [OF _ lt ge'] False by simp
    then show ?thesis using n10 by (simp add: decimal.simps [of n])
  qed
qed


lemma length_last_digits: "length (last_digits k n) = k"
  by (induction k arbitrary: n) simp_all

lemma cprintf_loop_copy:
  "CHR ''%'' \<notin> set cs \<Longrightarrow> CHR 0x00 \<notin> set cs \<Longrightarrow> k + length cs \<le> length dest \<Longrightarrow>
   cprintf_loop (cs @ rest) dest (int k) len n =
   cprintf_loop rest (take k dest @ cs @ drop (k + length cs) dest) (int (k + length cs)) len n"
proof (induction cs arbitrary: dest k)
  case Nil
  then show ?case by simp
next
  case (Cons c cs)
  have lt: "k < length dest" using Cons.prems by simp
  have pk: "poke dest (int k) c = Some (dest[k := c])" using lt by (rule poke_in)
  have buf: "take (Suc k) (dest[k := c]) @ cs @ drop (Suc k + length cs) (dest[k := c]) =
             take k dest @ (c # cs) @ drop (k + length (c # cs)) dest"
    using lt by (simp add: take_Suc_conv_app_nth)
  have c: "c \<noteq> CHR ''%''" "c \<noteq> CHR 0x00" using Cons.prems by auto
  have "cprintf_loop ((c # cs) @ rest) dest (int k) len n =
        cprintf_loop (cs @ rest) (dest[k := c]) (int (Suc k)) len n"
    using c pk by (simp add: add.commute)
  also have "\<dots> = cprintf_loop rest
      (take (Suc k) (dest[k := c]) @ cs @ drop (Suc k + length cs) (dest[k := c]))
      (int (Suc k + length cs)) len n"
    using Cons.prems by (intro Cons.IH) simp_all
  finally show ?case unfolding buf by simp
qed

lemma cprintf_len:
  assumes "0 \<le> n" "n \<le> 999999"
  obtains k where
    "(if n \<le> 9 then 1 else if n \<le> 99 then 2 else if n \<le> 999 then 3
      else if n \<le> 9999 then 4 else if n \<le> 99999 then 5 else (6::int)) = int k"
    "last_digits k (nat n) = decimal (nat n)"
proof -
  consider "n \<le> 9" | "9 < n" "n \<le> 99" | "99 < n" "n \<le> 999" | "999 < n" "n \<le> 9999"
    | "9999 < n" "n \<le> 99999" | "99999 < n"
    by linarith
  then show thesis
  proof cases
    case 1
    with assms show ?thesis using last_digits_decimal [of 1 "nat n"] by (intro that [of 1]) simp_all
  next
    case 2
    with assms show ?thesis using last_digits_decimal [of 2 "nat n"] by (intro that [of 2]) simp_all
  next
    case 3
    with assms show ?thesis using last_digits_decimal [of 3 "nat n"] by (intro that [of 3]) simp_all
  next
    case 4
    with assms show ?thesis using last_digits_decimal [of 4 "nat n"] by (intro that [of 4]) simp_all
  next
    case 5
    with assms show ?thesis using last_digits_decimal [of 5 "nat n"] by (intro that [of 5]) simp_all
  next
    case 6
    with assms show ?thesis using last_digits_decimal [of 6 "nat n"] by (intro that [of 6]) simp_all
  qed
qed

lemma cprintf_writes:
  assumes mask: "mask_str = pre @ CHR ''%'' # suf"
    and pre: "CHR ''%'' \<notin> set pre" "CHR 0x00 \<notin> set pre"
    and suf: "CHR ''%'' \<notin> set suf" "CHR 0x00 \<notin> set suf"
    and n: "0 \<le> n" "n \<le> 999999"
    and size: "length (pre @ decimal (nat n) @ suf) \<le> length dest"
  shows "cprintf dest mask_str n =
           Some (pre @ decimal (nat n) @ suf @ drop (length (pre @ decimal (nat n) @ suf)) dest,
                 int (length (pre @ decimal (nat n) @ suf)))"
proof -
  obtain k where len: "(if n \<le> 9 then 1 else if n \<le> 99 then 2 else if n \<le> 999 then 3
      else if n \<le> 9999 then 4 else if n \<le> 99999 then 5 else (6::int)) = int k"
    and dec: "last_digits k (nat n) = decimal (nat n)"
    using n by (rule cprintf_len)
  have lk: "length (decimal (nat n)) = k"
    using length_last_digits [of k "nat n"] dec by simp
  define p where "p = length pre"
  define d1 where "d1 = pre @ drop p dest"
  define d2 where "d2 = pre @ decimal (nat n) @ drop (p + k) dest"
  define d3 where "d3 = pre @ decimal (nat n) @ suf @ drop (p + k + length suf) dest"
  have sz: "p + k + length suf \<le> length dest" using size lk by (simp add: p_def)
  have l1: "length d1 = length dest" using sz by (simp add: d1_def p_def)
  have l2: "length d2 = length dest" using sz lk by (simp add: d2_def p_def)
  have s1: "cprintf_loop (pre @ CHR ''%'' # suf) dest (int 0) (int k) n =
            cprintf_loop (CHR ''%'' # suf) d1 (int p) (int k) n"
    using cprintf_loop_copy [OF pre, of 0 dest "CHR ''%'' # suf" "int k" n] sz
    by (simp add: d1_def p_def)
  have dg: "cprintf_digits d1 (int p + int k) 0 (int k) n =
            Some (take p d1 @ last_digits k (nat n) @ drop (p + k) d1, - 1, n div 10 ^ k)"
    using n(1) l1 sz by (intro cprintf_digits_writes) simp_all
  have d12: "take p d1 @ last_digits k (nat n) @ drop (p + k) d1 = d2"
    using sz by (simp add: d1_def d2_def dec p_def add.commute)
  have s2: "cprintf_loop (CHR ''%'' # suf) d1 (int p) (int k) n =
            cprintf_loop suf d2 (int (p + k)) (- 1) (n div 10 ^ k)"
    using dg d12 by simp
  have d23: "take (p + k) d2 @ suf @ drop (p + k + length suf) d2 = d3"
    using sz lk by (simp add: d2_def d3_def p_def add.commute)
  have s3: "cprintf_loop (suf @ []) d2 (int (p + k)) (- 1) (n div 10 ^ k) =
            Some (d3, int (p + k + length suf))"
    using cprintf_loop_copy [OF suf, of "p + k" d2 "[]" "- 1" "n div 10 ^ k"] l2 sz d23
    by simp
  have "cprintf dest mask_str n = Some (d3, int (p + k + length suf))"
    using s1 s2 s3 len by (simp add: cprintf_def mask)
  then show ?thesis by (simp add: d3_def p_def lk add.assoc)
qed

text \<open>
  C9. For a destination buffer that is large enough, a mask with exactly one \<open>%\<close>
  (\<open>pre\<close> before it and \<open>suf\<close> after it, neither holding a \<open>%\<close> or a NUL) and
  \<open>0 \<le> n \<le> 999999\<close>, \<open>cprintf\<close> writes the mask with the \<open>%\<close> replaced by the decimal
  representation of \<open>n\<close>, leaves the rest of the buffer as it was, and returns the
  number of characters written.
\<close>

theorem cprintf_one_percent:
  assumes "mask_str = pre @ CHR ''%'' # suf"
    and "CHR ''%'' \<notin> set pre" "CHR 0x00 \<notin> set pre"
    and "CHR ''%'' \<notin> set suf" "CHR 0x00 \<notin> set suf"
    and "0 \<le> n" "n \<le> 999999"
    and "length (pre @ decimal (nat n) @ suf) \<le> length dest"
  shows "cprintf dest mask_str n =
           Some (pre @ decimal (nat n) @ suf @ drop (length (pre @ decimal (nat n) @ suf)) dest,
                 int (length (pre @ decimal (nat n) @ suf)))"
  using assms by (rule cprintf_writes)

text \<open>
  With a second \<open>%\<close> in the mask the output is not the mask with the number put in: the
  inner loop has left \<open>len\<close> at \<open>-1\<close>, so the second \<open>%\<close> moves the output pointer one
  character back, and the \<open>b\<close> of the mask is overwritten.
\<close>

theorem cprintf_two_percent:
  "cprintf (replicate 8 CHR ''x'') ''a%b%c'' 17 = Some (''a17c'' @ replicate 4 CHR ''x'', 4)"
  by code_simp

theorem cprintf_one_percent_witness:
  "cprintf (replicate 80 CHR ''x'') ''ord.%'' 131070 = Some (''ord.131070'' @ replicate 70 CHR ''x'', 10)"
  using cprintf_one_percent [of "''ord.%''" "''ord.''" "[]" 131070 "replicate 80 CHR ''x''"]
  by (simp add: decimal.simps digit_def char_of_eq_iff)

subsection \<open>The two parse_pe\<close>









lemma write_implib_pub_name [simp]:
  "length (pub_name (write_implib filename n s)) = length (pub_name s)"
  by (simp add: write_implib_def Let_def)







subsection \<open>The builder\<close>

lemmas prim_defs = CreateObject_def CreateCoffBuilder_def sec_build_def AddObject_def

lemma AddImportFunctionByName_eq:
  "AddImportFunctionByName i f e s = add_member (BuildImportByNameThunk (m_dllName (fst s)) i f e) s"
  by (simp add: AddImportFunctionByName_def add_member_def prim_defs split_def Let_def)

lemma AddImportFunctionByOrdinal_eq:
  "AddImportFunctionByOrdinal i f n s = add_member (BuildImportByOrdinalThunk (m_dllName (fst s)) i f n) s"
  by (simp add: AddImportFunctionByOrdinal_def add_member_def prim_defs split_def Let_def)

lemma AddImportFunctionByNameWithHint_eq:
  "AddImportFunctionByNameWithHint i f e n s = add_member (BuildImportThunk (m_dllName (fst s)) i f e n) s"
  by (simp add: AddImportFunctionByNameWithHint_def add_member_def prim_defs split_def Let_def)

lemma add_import_eq: "add_import i s = add_member (thunk_of (m_dllName (fst s)) i) s"
  by (cases i)
    (simp_all add: AddImportFunctionByName_eq AddImportFunctionByOrdinal_eq
      AddImportFunctionByNameWithHint_eq)

lemma Build_eq: "Build s = fill (add_member (BuildNullThunk (m_dllName (fst s))) s)"
  by (simp add: Build_def add_member_def fill_def FillOffsets_def prim_defs split_def Let_def)

lemma new_eq:
  "new_CImportLibraryBuilder a dll mem w =
     add_member BuildNullDescriptor (add_member (BuildImportDescriptor dll)
       (\<lparr>m_secBuilder = a, m_libBuilder = brk w, m_dllName = dll, m_memName = mem,
          m_todispose = []\<rparr>,
        w\<lparr>libs := (libs w)(brk w := []), brk := Suc (brk w)\<rparr>))"
  by (simp add: new_CImportLibraryBuilder_def add_member_def CreateLibraryBuilder_def
      prim_defs split_def Let_def)


text \<open>Effects of the two primitive steps on the builder that takes them.\<close>

lemma add_member_fields [simp]:
  "m_libBuilder (fst (add_member b s)) = m_libBuilder (fst s)"
  "m_secBuilder (fst (add_member b s)) = m_secBuilder (fst s)"
  "m_dllName (fst (add_member b s)) = m_dllName (fst s)"
  "m_memName (fst (add_member b s)) = m_memName (fst s)"
  by (simp_all add: add_member_def split_def)

lemma fill_fields [simp]:
  "m_libBuilder (fst (fill s)) = m_libBuilder (fst s)"
  "m_secBuilder (fst (fill s)) = m_secBuilder (fst s)"
  "m_dllName (fst (fill s)) = m_dllName (fst s)"
  "m_memName (fst (fill s)) = m_memName (fst s)"
  by (simp_all add: fill_def split_def)

lemma entry_of_frame:
  assumes "\<forall>szName obj. Call_AddObject szName obj \<in> set cs \<longrightarrow> coffs w' obj = coffs w obj"
  shows "map (entry_of w') cs = map (entry_of w) cs"
proof (rule map_cong [OF refl])
  fix c assume "c \<in> set cs"
  with assms show "entry_of w' c = entry_of w c" by (cases c) simp_all
qed

lemma add_member_owns:
  assumes "owns (snd s) (fst s)"
  shows "owns (snd (add_member b s)) (fst (add_member b s))"
  using assms by (auto simp: owns_def add_member_def split_def less_Suc_eq)

lemma add_member_archive:
  assumes "owns (snd s) (fst s)"
  shows "archive (add_member b s) =
           archive s @ [member_of (m_secBuilder (fst s)) (m_memName (fst s)) b]"
proof -
  obtain this w where s: "s = (this, w)" by (cases s)
  let ?w' = "snd (add_member b s)"
  have "map (entry_of ?w') (libs w (m_libBuilder this)) = map (entry_of w) (libs w (m_libBuilder this))"
    using assms by (intro entry_of_frame) (auto simp: owns_def s add_member_def)
  then show ?thesis
    by (simp add: archive_def s add_member_def member_of_def)
qed

lemma fill_owns:
  assumes "owns (snd s) (fst s)"
  shows "owns (snd (fill s)) (fst (fill s))"
  using assms by (auto simp: owns_def fill_def FillOffsets_def split_def)

lemma fill_archive: "archive (fill s) = archive s @ [Offsets_filled]"
proof -
  obtain this w where s: "s = (this, w)" by (cases s)
  have "map (entry_of (snd (fill s))) (libs w (m_libBuilder this)) =
        map (entry_of w) (libs w (m_libBuilder this))"
    by (intro entry_of_frame) (simp add: s fill_def FillOffsets_def)
  then show ?thesis
    by (simp add: archive_def s fill_def FillOffsets_def)
qed

text \<open>Effects on another builder: none, when the two have different emitters.\<close>

lemma add_member_other:
  assumes "owns (snd s) that" "m_libBuilder that \<noteq> m_libBuilder (fst s)"
  shows "owns (snd (add_member b s)) that"
    and "archive (that, snd (add_member b s)) = archive (that, snd s)"
proof -
  obtain this w where s: "s = (this, w)" by (cases s)
  show "owns (snd (add_member b s)) that"
    using assms by (auto simp: owns_def s add_member_def less_Suc_eq)
  have "map (entry_of (snd (add_member b s))) (libs w (m_libBuilder that)) =
        map (entry_of w) (libs w (m_libBuilder that))"
    using assms by (intro entry_of_frame) (auto simp: owns_def s add_member_def)
  then show "archive (that, snd (add_member b s)) = archive (that, snd s)"
    using assms by (simp add: archive_def s add_member_def)
qed

lemma fill_other:
  assumes "owns (snd s) that" "m_libBuilder that \<noteq> m_libBuilder (fst s)"
  shows "owns (snd (fill s)) that"
    and "archive (that, snd (fill s)) = archive (that, snd s)"
proof -
  obtain this w where s: "s = (this, w)" by (cases s)
  show "owns (snd (fill s)) that"
    using assms by (auto simp: owns_def s fill_def FillOffsets_def)
  have "map (entry_of (snd (fill s))) (libs w (m_libBuilder that)) =
        map (entry_of w) (libs w (m_libBuilder that))"
    by (intro entry_of_frame) (simp add: s fill_def FillOffsets_def)
  then show "archive (that, snd (fill s)) = archive (that, snd s)"
    using assms by (simp add: archive_def s fill_def FillOffsets_def)
qed

lemma add_member_brk: "brk (snd s) \<le> brk (snd (add_member b s))"
  by (simp add: add_member_def split_def)

lemma fill_brk: "brk (snd (fill s)) = brk (snd s)"
  by (simp add: fill_def FillOffsets_def split_def)

text \<open>The calls of a client, from the two primitive steps.\<close>

lemma do_call_eq:
  "do_call c s =
     (case c of Add i \<Rightarrow> add_member (thunk_of (m_dllName (fst s)) i) s
      | Do_Build \<Rightarrow> fill (add_member (BuildNullThunk (m_dllName (fst s))) s))"
  by (cases c) (simp_all add: add_import_eq Build_eq)

lemma do_call_fields [simp]:
  "m_libBuilder (fst (do_call c s)) = m_libBuilder (fst s)"
  "m_secBuilder (fst (do_call c s)) = m_secBuilder (fst s)"
  "m_dllName (fst (do_call c s)) = m_dllName (fst s)"
  "m_memName (fst (do_call c s)) = m_memName (fst s)"
  by (simp_all add: do_call_eq split: call.split)

lemma do_call_owns:
  "owns (snd s) (fst s) \<Longrightarrow> owns (snd (do_call c s)) (fst (do_call c s))"
  by (simp add: do_call_eq add_member_owns fill_owns split: call.split)

lemma do_call_archive:
  "owns (snd s) (fst s) \<Longrightarrow>
   archive (do_call c s) =
     after_call (m_secBuilder (fst s)) (m_dllName (fst s)) (m_memName (fst s)) c (archive s)"
  by (cases c) (simp_all add: do_call_eq add_member_archive fill_archive)

lemma do_call_other:
  assumes "owns (snd s) that" "m_libBuilder that \<noteq> m_libBuilder (fst s)"
  shows "owns (snd (do_call c s)) that"
    and "archive (that, snd (do_call c s)) = archive (that, snd s)"
  using assms
  by (cases c; simp add: do_call_eq add_member_other fill_other)+

lemma do_call_brk: "brk (snd s) \<le> brk (snd (do_call c s))"
  by (cases c) (simp_all add: do_call_eq fill_brk add_member_brk)

text \<open>The constructor.\<close>

lemma new_fields [simp]:
  "m_libBuilder (fst (new_CImportLibraryBuilder a dll mem w)) = brk w"
  "m_secBuilder (fst (new_CImportLibraryBuilder a dll mem w)) = a"
  "m_dllName (fst (new_CImportLibraryBuilder a dll mem w)) = dll"
  "m_memName (fst (new_CImportLibraryBuilder a dll mem w)) = mem"
  by (simp_all add: new_eq)

lemma new_owns:
  "owns (snd (new_CImportLibraryBuilder a dll mem w)) (fst (new_CImportLibraryBuilder a dll mem w))"
  unfolding new_eq by (intro add_member_owns) (simp add: owns_def)

lemma new_archive:
  "archive (new_CImportLibraryBuilder a dll mem w) = fixed_head a dll mem"
proof -
  let ?s0 = "(\<lparr>m_secBuilder = a, m_libBuilder = brk w, m_dllName = dll, m_memName = mem,
          m_todispose = []\<rparr>, w\<lparr>libs := (libs w)(brk w := []), brk := Suc (brk w)\<rparr>)"
  define s0 where "s0 = ?s0"
  define s1 where "s1 = add_member (BuildImportDescriptor dll) s0"
  have o0: "owns (snd s0) (fst s0)" by (simp add: owns_def s0_def)
  then have o1: "owns (snd s1) (fst s1)" unfolding s1_def by (rule add_member_owns)
  have a0: "archive s0 = []" by (simp add: archive_def s0_def)
  have a1: "archive s1 = [member_of a mem (BuildImportDescriptor dll)]"
    unfolding s1_def add_member_archive [OF o0] a0 by (simp add: s0_def)
  have "archive (add_member BuildNullDescriptor s1) = fixed_head a dll mem"
    unfolding add_member_archive [OF o1] a1 by (simp add: fixed_head_def s1_def s0_def)
  then show ?thesis
    unfolding new_eq s1_def s0_def .
qed

lemma new_other:
  assumes "owns w that"
  shows "owns (snd (new_CImportLibraryBuilder a dll mem w)) that"
    and "archive (that, snd (new_CImportLibraryBuilder a dll mem w)) = archive (that, w)"
proof -
  let ?s0 = "(\<lparr>m_secBuilder = a, m_libBuilder = brk w, m_dllName = dll, m_memName = mem,
          m_todispose = []\<rparr>, w\<lparr>libs := (libs w)(brk w := []), brk := Suc (brk w)\<rparr>)"
  have ne: "m_libBuilder that \<noteq> brk w" using assms by (auto simp: owns_def)
  have o: "owns (snd ?s0) that" using assms ne by (auto simp: owns_def less_Suc_eq)
  have "map (entry_of (snd ?s0)) (libs w (m_libBuilder that)) =
        map (entry_of w) (libs w (m_libBuilder that))"
    by (intro entry_of_frame) simp
  then have a: "archive (that, snd ?s0) = archive (that, w)"
    using ne by (simp add: archive_def)
  show "owns (snd (new_CImportLibraryBuilder a dll mem w)) that"
    unfolding new_eq using o ne by (simp add: add_member_other)
  show "archive (that, snd (new_CImportLibraryBuilder a dll mem w)) = archive (that, w)"
    unfolding new_eq using o ne a by (simp add: add_member_other)
qed

lemma new_brk: "brk w < brk (snd (new_CImportLibraryBuilder a dll mem w))"
  by (simp add: new_eq add_member_def)


text \<open>A run of one builder.\<close>

lemma fold_add_import:
  assumes "owns (snd s) (fst s)"
  shows "owns (snd (fold add_import imps s)) (fst (fold add_import imps s)) \<and>
         m_secBuilder (fst (fold add_import imps s)) = m_secBuilder (fst s) \<and>
         m_dllName (fst (fold add_import imps s)) = m_dllName (fst s) \<and>
         m_memName (fst (fold add_import imps s)) = m_memName (fst s) \<and>
         archive (fold add_import imps s) =
           archive s @ map (\<lambda>i. member_of (m_secBuilder (fst s)) (m_memName (fst s))
                                   (thunk_of (m_dllName (fst s)) i)) imps"
  using assms
proof (induction imps arbitrary: s)
  case Nil
  then show ?case by simp
next
  case (Cons i imps)
  let ?s = "add_member (thunk_of (m_dllName (fst s)) i) s"
  have o: "owns (snd ?s) (fst ?s)" using Cons.prems by (rule add_member_owns)
  show ?case
    using Cons.IH [OF o] add_member_archive [OF Cons.prems]
    by (simp add: add_import_eq)
qed

lemma build_library_archive:
  "archive (build_library a dll mem imps w) = user_members a dll mem imps @ [Offsets_filled]"
proof -
  let ?s0 = "new_CImportLibraryBuilder a dll mem w"
  let ?s1 = "fold add_import imps ?s0"
  have o1: "owns (snd ?s1) (fst ?s1)"
    and f: "m_secBuilder (fst ?s1) = a" "m_dllName (fst ?s1) = dll" "m_memName (fst ?s1) = mem"
    and a1: "archive ?s1 = fixed_head a dll mem @ map (\<lambda>i. member_of a mem (thunk_of dll i)) imps"
    using fold_add_import [OF new_owns [of a dll mem w], where imps = imps]
    by (simp_all add: new_archive)
  show ?thesis
    unfolding build_library_def Build_eq fill_archive add_member_archive [OF o1] f a1
    by (simp add: user_members_def)
qed


lemma add_member_log:
  "libs (snd (add_member b s)) (m_libBuilder (fst s)) =
     libs (snd s) (m_libBuilder (fst s)) @ [Call_AddObject (m_memName (fst s)) (brk (snd s))]"
  "brk (snd (add_member b s)) = Suc (brk (snd s))"
  "coffs (snd (add_member b s)) (brk (snd s)) =
     \<lparr>coff_arch = m_secBuilder (fst s), coff_builds = [b]\<rparr>"
  by (simp_all add: add_member_def split_def)

lemma fill_log:
  "libs (snd (fill s)) (m_libBuilder (fst s)) = libs (snd s) (m_libBuilder (fst s)) @ [Call_FillOffsets]"
  "coffs (snd (fill s)) = coffs (snd s)"
  by (simp_all add: fill_def FillOffsets_def split_def)

lemma fold_add_import_log:
  "libs (snd (fold add_import imps s)) (m_libBuilder (fst s)) =
     libs (snd s) (m_libBuilder (fst s)) @
       map (Call_AddObject (m_memName (fst s))) [brk (snd s) ..< brk (snd s) + length imps] \<and>
   brk (snd (fold add_import imps s)) = brk (snd s) + length imps \<and>
   m_libBuilder (fst (fold add_import imps s)) = m_libBuilder (fst s) \<and>
   m_memName (fst (fold add_import imps s)) = m_memName (fst s)"
proof (induction imps arbitrary: s)
  case Nil
  then show ?case by simp
next
  case (Cons i imps)
  have "[brk (snd s) ..< brk (snd s) + length (i # imps)] =
        brk (snd s) # [Suc (brk (snd s)) ..< Suc (brk (snd s)) + length imps]"
    by (simp add: upt_conv_Cons del: upt_Suc)
  then show ?case
    using Cons.IH [of "add_member (thunk_of (m_dllName (fst s)) i) s"]
    by (simp add: add_import_eq add_member_log del: upt_Suc)
qed

lemma build_library_log:
  "libs (snd (build_library a dll mem imps w)) (m_libBuilder (fst (build_library a dll mem imps w))) =
     map (Call_AddObject mem) [Suc (brk w) ..< brk w + length imps + 4] @ [Call_FillOffsets]"
proof -
  define s0 where "s0 = new_CImportLibraryBuilder a dll mem w"
  define s1 where "s1 = fold add_import imps s0"
  define s2 where "s2 = add_member (BuildNullThunk (m_dllName (fst s1))) s1"
  have f0: "m_libBuilder (fst s0) = brk w" "m_memName (fst s0) = mem"
    by (simp_all add: s0_def)
  have l0: "libs (snd s0) (brk w) = map (Call_AddObject mem) [Suc (brk w) ..< brk w + 3]"
    and b0: "brk (snd s0) = brk w + 3"
    by (simp_all add: s0_def new_eq add_member_def upt_conv_Cons)
  have l1: "libs (snd s1) (brk w) =
              map (Call_AddObject mem) [Suc (brk w) ..< brk w + 3 + length imps]"
    and b1: "brk (snd s1) = brk w + 3 + length imps"
    and f1: "m_libBuilder (fst s1) = brk w" "m_memName (fst s1) = mem"
    using fold_add_import_log [of imps s0] l0 b0 f0
      upt_add_eq_append [of "Suc (brk w)" "brk w + 3" "length imps"]
    by (simp_all add: s1_def del: upt_Suc)
  have l2: "libs (snd s2) (brk w) =
              map (Call_AddObject mem) [Suc (brk w) ..< brk w + 3 + length imps]
                @ [Call_AddObject mem (brk w + 3 + length imps)]"
    and f2: "m_libBuilder (fst s2) = brk w"
    using add_member_log(1) [of "BuildNullThunk (m_dllName (fst s1))" s1] l1 b1 f1
    by (simp_all add: s2_def)
  have l3: "libs (snd (fill s2)) (brk w) =
              map (Call_AddObject mem) [Suc (brk w) ..< brk w + 3 + length imps]
                @ [Call_AddObject mem (brk w + 3 + length imps)] @ [Call_FillOffsets]"
    using fill_log(1) [of s2] l2 f2 by simp
  have e: "brk w + length imps + 4 = Suc (brk w + 3 + length imps)"
    by simp
  have u: "[Suc (brk w) ..< Suc (brk w + 3 + length imps)] =
        [Suc (brk w) ..< brk w + 3 + length imps] @ [brk w + 3 + length imps]"
    by (rule upt_Suc_append) simp
  have b: "build_library a dll mem imps w = fill s2"
    by (simp add: build_library_def Build_eq s2_def s1_def s0_def)
  have "m_libBuilder (fst (fill s2)) = brk w" using f2 by simp
  then show ?thesis
    unfolding b e u using l3 by simp
qed


text \<open>Several builders.\<close>

lemma Create_eq:
  "(case a of ArchX86 \<Rightarrow> CreateX86ImpLibBuilder dll mem w
    | ArchX64 \<Rightarrow> CreateX64ImpLibBuilder dll mem w) = new_CImportLibraryBuilder a dll mem w"
  by (cases a) (simp_all add: CreateX86ImpLibBuilder_def CreateX64ImpLibBuilder_def)

lemma step_Create:
  "step (Create i a dll mem) c =
     Some \<lparr>heap = snd (new_CImportLibraryBuilder a dll mem (heap c)),
           var = (var c)(i := Some (fst (new_CImportLibraryBuilder a dll mem (heap c))))\<rparr>"
  by (simp add: Create_eq split_def Let_def)

lemma step_Call:
  "var c i = Some this \<Longrightarrow>
   step (Call i k) c =
     Some \<lparr>heap = snd (do_call k (this, heap c)),
           var = (var c)(i := Some (fst (do_call k (this, heap c))))\<rparr>"
  by (simp add: split_def Let_def)

lemma live_owns: "live c \<Longrightarrow> var c j = Some b \<Longrightarrow> owns (heap c) b"
  unfolding live_def by blast

lemma live_distinct:
  "live c \<Longrightarrow> var c j = Some b \<Longrightarrow> var c k = Some b' \<Longrightarrow> k \<noteq> j \<Longrightarrow>
   m_libBuilder b' \<noteq> m_libBuilder b"
  unfolding live_def by blast

lemma live_update:
  assumes "live c"
    and new: "owns w' this'"
    and old: "\<And>j that. var c j = Some that \<Longrightarrow> j \<noteq> i \<Longrightarrow>
                owns w' that \<and> m_libBuilder that \<noteq> m_libBuilder this'"
  shows "live \<lparr>heap = w', var = (var c)(i := Some this')\<rparr>"
  unfolding live_def
proof (intro allI impI)
  fix j this
  assume v: "var \<lparr>heap = w', var = (var c)(i := Some this')\<rparr> j = Some this"
  show "owns (heap \<lparr>heap = w', var = (var c)(i := Some this')\<rparr>) this \<and>
        (\<forall>k that. k \<noteq> j \<longrightarrow> var \<lparr>heap = w', var = (var c)(i := Some this')\<rparr> k = Some that \<longrightarrow>
           m_libBuilder that \<noteq> m_libBuilder this)"
  proof (cases "j = i")
    case True
    then have "this = this'" using v by simp
    then show ?thesis using new old True by auto
  next
    case False
    then have vj: "var c j = Some this" using v by simp
    have "owns w' this" "m_libBuilder this \<noteq> m_libBuilder this'"
      using old [OF vj False] by simp_all
    moreover have "m_libBuilder that \<noteq> m_libBuilder this"
      if "k \<noteq> j" "k \<noteq> i" "var c k = Some that" for k that
      using that vj assms(1) unfolding live_def by blast
    ultimately show ?thesis by auto
  qed
qed

lemma step_live:
  assumes "live c" "step e c = Some c'"
  shows "live c'"
proof (cases e)
  case (Create i a dll mem)
  let ?n = "new_CImportLibraryBuilder a dll mem (heap c)"
  have c': "c' = \<lparr>heap = snd ?n, var = (var c)(i := Some (fst ?n))\<rparr>"
    using assms(2) unfolding Create step_Create by simp
  have old: "owns (snd ?n) that \<and> m_libBuilder that \<noteq> m_libBuilder (fst ?n)"
    if "var c j = Some that" for j that
  proof -
    have own: "owns (heap c) that" using that assms(1) by (auto simp: live_def)
    then have "m_libBuilder that < brk (heap c)" by (simp add: owns_def)
    with new_other(1) [OF own] show ?thesis by simp
  qed
  show ?thesis
    unfolding c' using assms(1) new_owns old by (rule live_update)
next
  case (Call i k)
  then obtain this where v: "var c i = Some this"
    using assms(2) by (cases "var c i") auto
  let ?d = "do_call k (this, heap c)"
  have c': "c' = \<lparr>heap = snd ?d, var = (var c)(i := Some (fst ?d))\<rparr>"
    using assms(2) unfolding Call step_Call [OF v] by simp
  have own: "owns (heap c) this" using assms(1) v by (auto simp: live_def)
  have new: "owns (snd ?d) (fst ?d)" using do_call_owns [of "(this, heap c)" k] own by simp
  have lib: "m_libBuilder (fst ?d) = m_libBuilder this"
    using do_call_fields(1) [of k "(this, heap c)"] by simp
  have old: "owns (snd ?d) that \<and> m_libBuilder that \<noteq> m_libBuilder (fst ?d)"
    if "var c j = Some that" "j \<noteq> i" for j that
  proof -
    have ne: "m_libBuilder that \<noteq> m_libBuilder this"
      using that assms(1) v unfolding live_def by blast
    moreover have "owns (heap c) that" using that assms(1) by (auto simp: live_def)
    ultimately show ?thesis
      using do_call_other(1) [of "(this, heap c)" that k] lib by simp
  qed
  show ?thesis
    unfolding c' using assms(1) new old by (rule live_update)
qed

text \<open>The builder \<open>i\<close> of a program and of the program cut down to the calls on \<open>i\<close>.\<close>

lemma step_other:
  assumes "live c" "step e c = Some c'" "builder_of e \<noteq> i" "same_builder i c d"
  shows "same_builder i c' d"
proof (cases "var c i")
  case None
  have "var c' i = None"
    using assms(2,3) None by (cases e) (auto simp: step_Create split: option.splits prod.splits)
  then show ?thesis using assms(4) None by (simp add: same_builder_def)
next
  case (Some this)
  have own: "owns (heap c) this" using assms(1) Some by (auto simp: live_def)
  have "var c' i = Some this \<and> archive (this, heap c') = archive (this, heap c)"
  proof (cases e)
    case (Create j a dll mem)
    then show ?thesis
      using assms(2,3) Some new_other(2) [OF own] by (simp add: step_Create del: step.simps)
        auto
  next
    case (Call j k)
    then obtain that where v: "var c j = Some that"
      using assms(2) by (cases "var c j") auto
    have "j \<noteq> i" using assms(3) Call by simp
    then have "m_libBuilder this \<noteq> m_libBuilder that"
      using live_distinct [OF assms(1) v Some] by simp
    then show ?thesis
      using assms(2,3) Some Call do_call_other(2) [of "(that, heap c)" this k] own
      by (simp add: step_Call [OF v] del: step.simps) auto
  qed
  then show ?thesis using assms(4) Some
    by (cases "var d i") (simp_all add: same_builder_def)
qed

lemma step_same:
  assumes "live c" "step e c = Some c'" "builder_of e = i" "same_builder i c d"
  shows "\<exists>d'. step e d = Some d' \<and> same_builder i c' d'"
proof (cases e)
  case (Create j a dll mem)
  then have j: "j = i" using assms(3) by simp
  show ?thesis
    using assms(2) unfolding Create j step_Create
    by (auto simp: same_builder_def new_archive new_owns)
next
  case (Call j k)
  then have j: "j = i" using assms(3) by simp
  obtain this where v: "var c i = Some this"
    using assms(2) unfolding Call j by (cases "var c i") auto
  then obtain that where v': "var d i = Some that"
    and r: "archive (this, heap c) = archive (that, heap d)"
      "m_secBuilder this = m_secBuilder that" "m_dllName this = m_dllName that"
      "m_memName this = m_memName that" "owns (heap d) that"
    using assms(4) by (cases "var d i") (auto simp: same_builder_def)
  have own: "owns (heap c) this" using assms(1) v by (auto simp: live_def)
  have "archive (do_call k (this, heap c)) = archive (do_call k (that, heap d))"
    using do_call_archive [of "(this, heap c)" k] do_call_archive [of "(that, heap d)" k] own r
    by simp
  moreover have "owns (snd (do_call k (that, heap d))) (fst (do_call k (that, heap d)))"
    using do_call_owns [of "(that, heap d)" k] r by simp
  ultimately show ?thesis
    using assms(2) r unfolding Call j step_Call [OF v] step_Call [OF v']
    by (auto simp: same_builder_def)
qed

lemma run_same:
  assumes "live c" "same_builder i c d" "run es c = Some c'"
  shows "\<exists>d'. run (filter (\<lambda>e. builder_of e = i) es) d = Some d' \<and> same_builder i c' d'"
  using assms
proof (induction es arbitrary: c d)
  case Nil
  then show ?case by simp
next
  case (Cons e es)
  then obtain c1 where s: "step e c = Some c1" and r: "run es c1 = Some c'"
    by (cases "step e c") auto
  have l1: "live c1" using Cons.prems(1) s by (rule step_live)
  show ?case
  proof (cases "builder_of e = i")
    case True
    then obtain d1 where sd: "step e d = Some d1" and same: "same_builder i c1 d1"
      using step_same [OF Cons.prems(1) s _ Cons.prems(2)] by blast
    show ?thesis
      using Cons.IH [OF l1 same r] True sd by simp
  next
    case False
    have "same_builder i c1 d" using Cons.prems(1) s False Cons.prems(2) by (rule step_other)
    then show ?thesis
      using Cons.IH [OF l1 _ r] False by simp
  qed
qed

lemma live_start: "live (start w)"
  by (simp add: live_def start_def)

lemma same_builder_start: "same_builder i (start w) (start w')"
  by (simp add: same_builder_def start_def)

lemma same_builder_archive: "same_builder i c d \<Longrightarrow> archive_of d i = archive_of c i"
  by (cases "var c i"; cases "var d i") (simp_all add: same_builder_def archive_of_def)


lemma add_symbols_eq: "add_symbols syms s = fold add_import (map import_of syms) s"
  by (induction syms arbitrary: s) (simp_all add: import_of_def)

lemma main_eq:
  "main argc (Some j) can_create can_write w =
     (if argc = 3 then
        if \<not> can_create then Failure (''%s'' @ ''Fail to create library File!'')
        else if \<not> can_write then Failure (''%s'' @ ''Failed to write to output file!'')
        else Written (user_members (arch_of (arch j)) (dllname j) (dllname j)
                        (map import_of (symbols j)) @ [Offsets_filled])
      else Usage)"
proof -
  have "archive (Build (add_symbols (symbols j)
           (if arch j = 64 then CreateX64ImpLibBuilder (dllname j) (dllname j) w
            else CreateX86ImpLibBuilder (dllname j) (dllname j) w))) =
        archive (build_library (arch_of (arch j)) (dllname j) (dllname j)
                   (map import_of (symbols j)) w)"
    by (simp add: build_library_def add_symbols_eq arch_of_def CreateX64ImpLibBuilder_def
        CreateX86ImpLibBuilder_def)
  then show ?thesis
    by (simp add: main_def Let_def build_library_archive)
qed

text \<open>
  C1. A run of a builder with \<open>n\<close> add-import calls, of any mix of the three kinds,
  followed by \<open>Build\<close> hands exactly \<open>n + 3\<close> COFF objects to the archive emitter, all
  under the member name given at construction, in the order: import descriptor, null
  descriptor, the \<open>n\<close> thunk members in call order, null thunk. With no add-import call
  these are exactly three members. This holds from any state of the heap.
\<close>

theorem build_library_members:
  "archive (build_library a dll mem imps w) = user_members a dll mem imps @ [Offsets_filled] \<and>
   length (user_members a dll mem imps) = length imps + 3 \<and>
   user_members a dll mem [] =
     [member_of a mem (BuildImportDescriptor dll), member_of a mem BuildNullDescriptor,
      member_of a mem (BuildNullThunk dll)]"
  by (simp add: build_library_archive) (simp add: user_members_def fixed_head_def)

text \<open>
  C2. \<open>Build\<close> first creates the null-thunk object and adds it to the builder's
  emitter, and only then calls \<open>FillOffsets\<close> on that emitter. In a run (construction,
  add-import calls, \<open>Build\<close>) the emitter receives the \<open>n + 3\<close> \<open>AddObject\<close> calls and
  then \<open>FillOffsets\<close>, exactly once, as its last call.
\<close>

theorem Build_then_FillOffsets:
  "libs (snd (Build (this, w))) (m_libBuilder this) =
     libs w (m_libBuilder this) @ [Call_AddObject (m_memName this) (brk w), Call_FillOffsets] \<and>
   coffs (snd (Build (this, w))) (brk w) =
     \<lparr>coff_arch = m_secBuilder this, coff_builds = [BuildNullThunk (m_dllName this)]\<rparr> \<and>
   libs (snd (build_library a dll mem imps w0)) (m_libBuilder (fst (build_library a dll mem imps w0))) =
     map (Call_AddObject mem) [Suc (brk w0) ..< brk w0 + length imps + 4] @ [Call_FillOffsets] \<and>
   count_list (libs (snd (build_library a dll mem imps w0))
                 (m_libBuilder (fst (build_library a dll mem imps w0)))) Call_FillOffsets = 1"
proof -
  have "count_list (map (Call_AddObject mem) ns) Call_FillOffsets = 0" for ns
    by (induction ns) simp_all
  then have "count_list (map (Call_AddObject mem) ns @ [Call_FillOffsets]) Call_FillOffsets = 1" for ns
    by simp
  then show ?thesis
    unfolding build_library_log
    by (simp add: Build_def CreateObject_def CreateCoffBuilder_def sec_build_def AddObject_def
        FillOffsets_def del: upt_Suc)
qed

text \<open>
  C6. Two runs of a builder on the same DLL name, member name, architecture and
  sequence of add-import calls give the same \<open>GetDataLength\<close> and the same \<open>GetRawData\<close>,
  whatever the two heaps the runs start from (their contents and their next free
  address), for every emitter (\<open>len\<close> and \<open>raw\<close>) that answers from its content.
\<close>

theorem build_library_deterministic:
  "GetDataLength len (build_library a dll mem imps w) =
     GetDataLength len (build_library a dll mem imps w') \<and>
   GetRawData raw (build_library a dll mem imps w) =
     GetRawData raw (build_library a dll mem imps w')"
  by (simp add: GetDataLength_def GetRawData_def build_library_archive)

text \<open>
  C7. In a program that creates and calls any number of builders in any
  interleaving, the archive of builder \<open>i\<close> at the end is the archive that the program's
  own calls on \<open>i\<close>, run alone from any heap, produce: the calls on the other builders
  change nothing that \<open>i\<close> reads.
\<close>

theorem builders_independent:
  assumes "run es (start w) = Some c"
  shows "\<exists>d. run (filter (\<lambda>e. builder_of e = i) es) (start w') = Some d \<and>
             archive_of d i = archive_of c i"
proof -
  have "same_builder i (start w) (start w')" by (rule same_builder_start)
  with live_start
  have "\<exists>d. run (filter (\<lambda>e. builder_of e = i) es) (start w') = Some d \<and> same_builder i c d"
    using assms by (rule run_same)
  then obtain d
    where d: "run (filter (\<lambda>e. builder_of e = i) es) (start w') = Some d"
      and same: "same_builder i c d"
    by (elim exE conjE)
  from same have "archive_of d i = archive_of c i" by (rule same_builder_archive)
  with d show ?thesis by (intro exI conjI)
qed

lemma two_dlls_runs: "\<exists>c. run two_dlls (start empty_world) = Some c"
  by (simp add: two_dlls_def step_Create step_Call start_def del: step.simps)

theorem builders_independent_witness:
  "\<exists>c d. run two_dlls (start empty_world) = Some c \<and>
         run (filter (\<lambda>e. builder_of e = True) two_dlls) (start empty_world) = Some d \<and>
         archive_of d True = archive_of c True"
proof -
  obtain c where c: "run two_dlls (start empty_world) = Some c"
    using two_dlls_runs by blast
  from builders_independent [OF c, of True empty_world] c show ?thesis by blast
qed

text \<open>
  C4 as stated does not hold: with \<open>arch = 16\<close> and a symbol whose name is empty and
  whose ordinal is \<open>0\<close>, \<open>main\<close> reports no error and writes an x86 archive that imports
  the symbol by ordinal \<open>0\<close>.
\<close>

theorem main_accepts_any_arch:
  "main 3 (Some \<lparr>dllname = ''a.dll'', arch = 16,
                  symbols = [\<lparr>cconv = ''STDCALL'', name = [], ord = 0, thunk = ''f'',
                              pubname = ''__imp_f''\<rparr>]\<rparr>) True True empty_world =
     Written
       [Member ''a.dll'' \<lparr>coff_arch = ArchX86, coff_builds = [BuildImportDescriptor ''a.dll'']\<rparr>,
        Member ''a.dll'' \<lparr>coff_arch = ArchX86, coff_builds = [BuildNullDescriptor]\<rparr>,
        Member ''a.dll'' \<lparr>coff_arch = ArchX86,
          coff_builds = [BuildImportByOrdinalThunk ''a.dll'' ''__imp_f'' (Some ''f'') 0]\<rparr>,
        Member ''a.dll'' \<lparr>coff_arch = ArchX86, coff_builds = [BuildNullThunk ''a.dll'']\<rparr>,
        Offsets_filled]"
  by (simp add: main_eq user_members_def fixed_head_def member_of_def import_of_def arch_of_def)

text \<open>
  C4 (amended). \<open>main\<close> validates neither the architecture nor the symbols. When
  the input file opens and the output file can be created and written, every document
  yields the archive: built by the x64 builder when \<open>arch\<close> is \<open>64\<close> and by the x86 builder
  for every other value, each symbol with a non-empty name added by name and each symbol
  with an empty name added by ordinal with its \<open>ord\<close> value.
\<close>

theorem main_no_input_validation:
  "main 3 (Some j) True True w =
     Written (user_members (arch_of (arch j)) (dllname j) (dllname j)
                (map import_of (symbols j)) @ [Offsets_filled])"
  by (simp add: main_eq)

lemma same_but_cconv_imports:
  "list_all2 (\<lambda>s s'. name s = name s' \<and> ord s = ord s' \<and> thunk s = thunk s' \<and>
                      pubname s = pubname s') syms syms' \<Longrightarrow>
   map import_of syms = map import_of syms'"
  by (induction rule: list_all2_induct) (simp_all add: import_of_def)

text \<open>
  C8. Two runs of \<open>main\<close> on documents that differ only in the \<open>cconv\<close> fields of
  their symbols end the same way, and write the same bytes when they write a file.
\<close>

theorem cconv_unused:
  assumes "same_but_cconv j j'"
  shows "main argc (Some j) can_create can_write w = main argc (Some j') can_create can_write w' \<and>
         output_file len raw (main argc (Some j) can_create can_write w) =
           output_file len raw (main argc (Some j') can_create can_write w')"
  using assms same_but_cconv_imports [of "symbols j" "symbols j'"]
  by (simp add: main_eq same_but_cconv_def)

theorem cconv_unused_witness:
  "main 3 (Some \<lparr>dllname = ''kernel32.dll'', arch = 64,
                  symbols = [\<lparr>cconv = ''STDCALL'', name = ''ExitProcess'', ord = 1,
                              thunk = ''ExitProcess'', pubname = ''__imp_ExitProcess''\<rparr>]\<rparr>)
      True True empty_world =
   main 3 (Some \<lparr>dllname = ''kernel32.dll'', arch = 64,
                  symbols = [\<lparr>cconv = ''CDECL'', name = ''ExitProcess'', ord = 1,
                              thunk = ''ExitProcess'', pubname = ''__imp_ExitProcess''\<rparr>]\<rparr>)
      True True empty_world"
  using cconv_unused [of
      "\<lparr>dllname = ''kernel32.dll'', arch = 64,
        symbols = [\<lparr>cconv = ''STDCALL'', name = ''ExitProcess'', ord = 1,
                    thunk = ''ExitProcess'', pubname = ''__imp_ExitProcess''\<rparr>]\<rparr>"
      "\<lparr>dllname = ''kernel32.dll'', arch = 64,
        symbols = [\<lparr>cconv = ''CDECL'', name = ''ExitProcess'', ord = 1,
                    thunk = ''ExitProcess'', pubname = ''__imp_ExitProcess''\<rparr>]\<rparr>"
      3 True True empty_world empty_world]
  by (simp add: same_but_cconv_def)



end
